theory Spec2Isabelle
  imports Main "HOL-Library.Sublist"
begin

section \<open>JavaScript values used by the components\<close>

text \<open>
  A value of type \<open>string | null | undefined\<close> is a \<open>string option\<close>, \<open>None\<close> standing for
  both \<open>null\<close> and \<open>undefined\<close> (the code only ever tests such values with \<open>!\<close>, \<open>!!\<close>,
  \<open>??\<close> or \<open>===\<close> against a string, none of which tells the two apart). JavaScript treats
  the empty string as false in a condition, so truthiness is written out.
\<close>

definition truthy :: "string option \<Rightarrow> bool" where
  "truthy s = (case s of None \<Rightarrow> False | Some t \<Rightarrow> t \<noteq> [])"

text \<open>An optional boolean parameter (\<open>backwards?: boolean\<close>): \<open>None\<close> is \<open>undefined\<close>.\<close>

definition truthy_flag :: "bool option \<Rightarrow> bool" where
  "truthy_flag b = (case b of None \<Rightarrow> False | Some v \<Rightarrow> v)"

section \<open>MessageEditHistoryDialog\<close>

subsection \<open>Events, the object store and the client\<close>

text \<open>
  \<open>MatrixEvent\<close> objects are shared and mutated in place (\<open>markLocallyRedacted\<close>), and the
  dialog's state holds references to them. An object is therefore a reference into a store;
  the fields are the accessors the dialog calls.
\<close>

type_synonym ref = nat

record MatrixEvent =
  getId :: "string option"
  getType :: string
  getRoomId :: "string option"
  getAssociatedId :: "string option"
  getTs :: int
  getDate :: "int option"
  localRedactionEvent :: "ref option"

type_synonym store = "ref \<Rightarrow> MatrixEvent"

text \<open>\<open>EventType.RoomRedaction\<close> and \<open>EventType.RoomMessage\<close> of the client library.\<close>

definition RoomRedaction :: string where
  "RoomRedaction = ''m.room.redaction''"

definition RoomMessage :: string where
  "RoomMessage = ''m.room.message''"

text \<open>\<open>RelationType.Replace\<close> of the client library.\<close>

definition Replace :: string where
  "Replace = ''m.replace''"

text \<open>
  Modelled from the spec: \<open>MatrixEvent.markLocallyRedacted\<close> belongs to the client library and
  is not among the sources. The spec says that it "marks a matching edit as locally redacted":
  the event records the pending redaction event.
\<close>

definition markLocallyRedacted :: "MatrixEvent \<Rightarrow> ref \<Rightarrow> MatrixEvent" where
  "markLocallyRedacted e redactionEvent = e\<lparr>localRedactionEvent := Some redactionEvent\<rparr>"

record Room =
  getPendingEvents :: "ref list"

text \<open>
  The client returned by \<open>MatrixClientPeg.safeGet()\<close> is a parameter of the model; the dialog
  uses its room lookup (and its \<open>relations\<close> request, whose answer arrives as an action below).
\<close>

record MatrixClient =
  getRoom :: "string option \<Rightarrow> Room option"

record MatrixError =
  errcode :: "string option"
  isMatrixError :: bool

record IProps =
  mxEvent :: ref

record IState =
  originalEvent :: "ref option"
  error :: "MatrixError option"
  events :: "ref list"
  nextBatch :: "string option"
  isLoading :: bool
  isTwelveHour :: bool

text \<open>The constructor; the argument is \<open>SettingsStore.getValue("showTwelveHourTimestamps")\<close>.\<close>

definition constructor :: "bool \<Rightarrow> IState" where
  "constructor showTwelveHourTimestamps =
     \<lparr> originalEvent = None, error = None, events = [], nextBatch = None,
       isLoading = True, isTwelveHour = showTwelveHourTimestamps \<rparr>"

subsection \<open>locallyRedactEventsIfNeeded\<close>

text \<open>The callback given to \<open>pendingEvents.find\<close>.\<close>

definition isPendingRedactionOf :: "store \<Rightarrow> ref \<Rightarrow> ref \<Rightarrow> bool" where
  "isPendingRedactionOf h e pe =
     (getType (h pe) = RoomRedaction \<and> getAssociatedId (h pe) = getId (h e))"

text \<open>The \<open>for\<close> loop over \<open>newEvents\<close>, mutating the events in the store.\<close>

fun redactLoop :: "ref list \<Rightarrow> ref list \<Rightarrow> store \<Rightarrow> store" where
  "redactLoop pendingEvents [] h = h"
| "redactLoop pendingEvents (e # es) h =
     (case find (isPendingRedactionOf h e) pendingEvents of
        None \<Rightarrow> redactLoop pendingEvents es h
      | Some pendingRedaction \<Rightarrow>
          redactLoop pendingEvents es (h(e := markLocallyRedacted (h e) pendingRedaction)))"

definition locallyRedactEventsIfNeeded ::
  "MatrixClient \<Rightarrow> IProps \<Rightarrow> ref list \<Rightarrow> store \<Rightarrow> store" where
  "locallyRedactEventsIfNeeded client props newEvents h =
     (let roomId = getRoomId (h (mxEvent props)) in
      case getRoom client roomId of
        None \<Rightarrow> h
      | Some room \<Rightarrow> redactLoop (getPendingEvents room) newEvents h)"

subsection \<open>loadMoreEdits\<close>

text \<open>
  \<open>loadMoreEdits\<close> is an async function: it runs up to the \<open>await\<close> of \<open>client.relations\<close>,
  and resumes when the request is answered. The part before the \<open>await\<close> either returns
  \<open>false\<close> or issues the request; \<open>from\<close> is \<open>this.state.nextBatch ?? undefined\<close>.
\<close>

record RelationsRequest =
  req_roomId :: "string option"
  req_eventId :: "string option"
  req_relationType :: string
  req_eventType :: string
  req_from :: "string option"

datatype call_result = ReturnsFalse | Requests RelationsRequest

definition loadMoreEdits_call :: "IProps \<Rightarrow> store \<Rightarrow> IState \<Rightarrow> bool option \<Rightarrow> call_result" where
  "loadMoreEdits_call props h st backwards =
     (if truthy_flag backwards \<or> (\<not> truthy (nextBatch st) \<and> \<not> isLoading st)
      then ReturnsFalse
      else Requests \<lparr> req_roomId = getRoomId (h (mxEvent props)),
                      req_eventId = getId (h (mxEvent props)),
                      req_relationType = Replace,
                      req_eventType = RoomMessage,
                      req_from = nextBatch st \<rparr>)"

text \<open>The answer of \<open>client.relations\<close>: the awaited value, or the error it throws.\<close>

record RelationsResult =
  res_events :: "ref list"
  res_originalEvent :: "ref option"
  res_nextBatch :: "string option"

datatype response = Success RelationsResult | Failure MatrixError

text \<open>How the promise returned by \<open>loadMoreEdits\<close> is settled.\<close>

datatype settled = Resolved bool | Rejected MatrixError

text \<open>
  The \<open>catch\<close> branch: the error is logged if it is a \<open>MatrixError\<close> with a truthy code,
  stored in the state, and the promise is rejected with it. The result is the new state,
  what the promise settles to, and the errors handed to \<open>logger.error\<close>.
\<close>

definition loadMoreEdits_catch :: "IState \<Rightarrow> MatrixError \<Rightarrow> IState \<times> settled \<times> MatrixError list" where
  "loadMoreEdits_catch st err =
     (st\<lparr>error := Some err\<rparr>, Rejected err,
      if isMatrixError err \<and> truthy (errcode err) then [err] else [])"

text \<open>
  The code after a successful \<open>await\<close>: pending redactions are applied to the new events
  in the store, then the state is set from \<open>this.state\<close> as it is at that moment, and the
  callback of \<open>setState\<close> resolves the promise with \<open>!!this.state.nextBatch\<close>, read from the
  updated state. \<open>a ?? b ?? null\<close> keeps the first value that is not null.
\<close>

definition orElse :: "'a option \<Rightarrow> 'a option \<Rightarrow> 'a option" where
  "orElse a b = (case a of None \<Rightarrow> b | Some v \<Rightarrow> Some v)"

definition loadMoreEdits_then ::
  "MatrixClient \<Rightarrow> IProps \<Rightarrow> store \<Rightarrow> IState \<Rightarrow> RelationsResult \<Rightarrow> store \<times> IState \<times> settled" where
  "loadMoreEdits_then client props h st result =
     (let newEvents = res_events result;
          h' = locallyRedactEventsIfNeeded client props newEvents h;
          st' = st\<lparr> originalEvent := orElse (originalEvent st) (res_originalEvent result),
                    events := events st @ newEvents,
                    nextBatch := res_nextBatch result,
                    isLoading := False \<rparr>;
          hasMoreResults = truthy (nextBatch st')
      in (h', st', Resolved hasMoreResults))"

subsection \<open>The dialog as a transition system\<close>

text \<open>
  A dialog instance: the component state, the store of event objects, the requests that
  have been issued and not yet answered (with the number of the call that awaits them),
  every request issued so far, how the promise of each call was settled, the number of
  calls made so far, and what was passed to \<open>logger.error\<close>. The callback of \<open>setState\<close>
  is run together with the update.
\<close>

record Dialog =
  state :: IState
  objects :: store
  inflight :: "(nat \<times> RelationsRequest) list"
  fetches :: "RelationsRequest list"
  promises :: "(nat \<times> settled) list"
  calls :: nat
  logged :: "MatrixError list"

definition mount :: "store \<Rightarrow> bool \<Rightarrow> Dialog" where
  "mount h showTwelveHourTimestamps =
     \<lparr> state = constructor showTwelveHourTimestamps, objects = h, inflight = [],
       fetches = [], promises = [], calls = 0, logged = [] \<rparr>"

text \<open>A call of \<open>loadMoreEdits\<close> up to its first \<open>await\<close> or \<open>return\<close>.\<close>

definition loadMoreEdits :: "IProps \<Rightarrow> Dialog \<Rightarrow> bool option \<Rightarrow> Dialog" where
  "loadMoreEdits props d backwards =
     (case loadMoreEdits_call props (objects d) (state d) backwards of
        ReturnsFalse \<Rightarrow>
          d\<lparr> promises := promises d @ [(calls d, Resolved False)], calls := Suc (calls d) \<rparr>
      | Requests r \<Rightarrow>
          d\<lparr> inflight := inflight d @ [(calls d, r)], fetches := fetches d @ [r],
             calls := Suc (calls d) \<rparr>)"

definition componentDidMount :: "IProps \<Rightarrow> Dialog \<Rightarrow> Dialog" where
  "componentDidMount props d = loadMoreEdits props d None"

text \<open>The request awaited by call \<open>p\<close> is answered, and the call resumes.\<close>

definition resume :: "MatrixClient \<Rightarrow> IProps \<Rightarrow> Dialog \<Rightarrow> nat \<Rightarrow> response \<Rightarrow> Dialog" where
  "resume client props d p resp =
     (case resp of
        Failure err \<Rightarrow>
          (case loadMoreEdits_catch (state d) err of
             (st', s, lg) \<Rightarrow>
               d\<lparr> state := st', inflight := filter (\<lambda>q. fst q \<noteq> p) (inflight d),
                  promises := promises d @ [(p, s)], logged := logged d @ lg \<rparr>)
      | Success result \<Rightarrow>
          (case loadMoreEdits_then client props (objects d) (state d) result of
             (h', st', s) \<Rightarrow>
               d\<lparr> state := st', objects := h',
                  inflight := filter (\<lambda>q. fst q \<noteq> p) (inflight d),
                  promises := promises d @ [(p, s)] \<rparr>))"

datatype action = Call "bool option" | Answer nat response

text \<open>An answer is possible only for a request that is in flight.\<close>

fun step :: "MatrixClient \<Rightarrow> IProps \<Rightarrow> Dialog \<Rightarrow> action \<Rightarrow> Dialog option" where
  "step client props d (Call backwards) = Some (loadMoreEdits props d backwards)"
| "step client props d (Answer p resp) =
     (case map_of (inflight d) p of
        None \<Rightarrow> None
      | Some r \<Rightarrow> Some (resume client props d p resp))"

fun run :: "MatrixClient \<Rightarrow> IProps \<Rightarrow> Dialog \<Rightarrow> action list \<Rightarrow> Dialog option" where
  "run client props d [] = Some d"
| "run client props d (a # as) =
     (case step client props d a of
        None \<Rightarrow> None
      | Some d' \<Rightarrow> run client props d' as)"

subsection \<open>render\<close>

text \<open>
  The rendered content: one of the error paragraphs (its translated strings), the spinner,
  or the scroll panel with the edit nodes; only the scroll panel carries
  \<open>onFillRequest = loadMoreEdits\<close>. React keys are left out. \<open>wantsDateSeparator\<close> comes
  from \<open>DateUtils\<close> and is a parameter.
\<close>

datatype node =
    DateSeparator "string option" int
  | EditHistoryMessage ref "ref option" bool bool

datatype content = ErrorText "string list" | Spinner | ScrollPanel "node list"

fun editNodes ::
  "(int option \<Rightarrow> int option \<Rightarrow> bool) \<Rightarrow> store \<Rightarrow> string option \<Rightarrow> bool \<Rightarrow>
   ref option \<Rightarrow> ref list \<Rightarrow> node list" where
  "editNodes wantsDateSeparator h baseEventId twelve lastEvent [] = []"
| "editNodes wantsDateSeparator h baseEventId twelve lastEvent (e # rest) =
     (let separator =
            (case lastEvent of
               None \<Rightarrow> True
             | Some l \<Rightarrow> wantsDateSeparator (getDate (h l)) (getDate (h e)));
          isBaseEvent = (getId (h e) = baseEventId);
          previousEdit = (if \<not> isBaseEvent then (case rest of [] \<Rightarrow> None | n # _ \<Rightarrow> Some n) else None)
      in (if separator then [DateSeparator (getRoomId (h e)) (getTs (h e))] else [])
         @ [EditHistoryMessage e previousEdit isBaseEvent twelve]
         @ editNodes wantsDateSeparator h baseEventId twelve (Some e) rest)"

definition renderEdits ::
  "(int option \<Rightarrow> int option \<Rightarrow> bool) \<Rightarrow> IProps \<Rightarrow> store \<Rightarrow> IState \<Rightarrow> node list" where
  "renderEdits wantsDateSeparator props h st =
     (let allEvents =
            (case originalEvent st of
               Some orig \<Rightarrow> if \<not> truthy (nextBatch st) then events st @ [orig] else events st
             | None \<Rightarrow> events st)
      in editNodes wantsDateSeparator h (getId (h (mxEvent props))) (isTwelveHour st) None allEvents)"

definition msg_unsupported :: "string list" where
  "msg_unsupported = [''Your homeserver doesn't seem to support this feature.'']"

definition msg_server_error :: "string list" where
  "msg_server_error = [''Something went wrong!'']"

definition msg_unreachable :: "string list" where
  "msg_unreachable =
     [''Cannot reach homeserver'',
      ''Ensure you have a stable internet connection, or get in touch with the server admin'']"

definition render ::
  "(int option \<Rightarrow> int option \<Rightarrow> bool) \<Rightarrow> IProps \<Rightarrow> store \<Rightarrow> IState \<Rightarrow> content" where
  "render wantsDateSeparator props h st =
     (case error st of
        Some err \<Rightarrow>
          if errcode err = Some ''M_UNRECOGNIZED'' then ErrorText msg_unsupported
          else if truthy (errcode err) then ErrorText msg_server_error
          else ErrorText msg_unreachable
      | None \<Rightarrow>
          if isLoading st then Spinner
          else ScrollPanel (renderEdits wantsDateSeparator props h st))"


section \<open>usePlainTextListeners\<close>

subsection \<open>amendInnerHtml\<close>

text \<open>
  \<open>text.replace(/pat/g, rep)\<close> for a pattern without metacharacters: the text is scanned
  from the left, each match is replaced and the scan goes on after the match, so matches
  do not overlap and the replacement is not scanned again. The three patterns of
  \<open>amendInnerHtml\<close> are ASCII, so matching on bytes and on UTF-16 code units agree. For the
  empty pattern (not used here) the text is returned as it is.
\<close>

function replaceAll :: "string \<Rightarrow> string \<Rightarrow> string \<Rightarrow> string" where
  "replaceAll pat rep [] = []"
| "replaceAll pat rep (c # cs) =
     (if pat \<noteq> [] \<and> prefix pat (c # cs)
      then rep @ replaceAll pat rep (drop (length pat) (c # cs))
      else c # replaceAll pat rep cs)"
  by pat_completeness auto
termination
  by (relation "measure (\<lambda>(pat, rep, s). length s)") auto

definition newline :: string where
  "newline = [CHR 0x0A]"

text \<open>
  \<open>decodeHtml\<close> lets the browser decode the character references (it assigns the text to
  the \<open>innerHTML\<close> of a \<open>textarea\<close> and reads its \<open>value\<close>): it is a parameter.
\<close>

definition amendInnerHtml :: "(string \<Rightarrow> string) \<Rightarrow> string \<Rightarrow> string" where
  "amendInnerHtml decodeHtml text =
     replaceAll ''</div>'' []
       (replaceAll ''<div>'' newline
         (replaceAll ''<div><br></div>'' newline (decodeHtml text)))"

subsection \<open>The hook\<close>

text \<open>
  What the hook owns and what it does to its surroundings: \<open>ref.current\<close> (\<open>None\<close> when
  no node is attached, otherwise the node's \<open>innerHTML\<close>), the \<open>content\<close> state, and
  the calls made to the callbacks \<open>onChange\<close> and \<open>onSend\<close>. Both callbacks are optional:
  the parameters \<open>onChange\<close> and \<open>onSend\<close> below say whether one was given. What a callback
  does in turn, and what the user's editing does to the node, is outside the hook.
\<close>

record Hook =
  ref_current :: "string option"
  content :: "string option"
  onChange_calls :: "string list"
  onSend_calls :: nat

definition usePlainTextListeners :: "string option \<Rightarrow> Hook" where
  "usePlainTextListeners initialContent =
     \<lparr> ref_current = None, content = initialContent, onChange_calls = [], onSend_calls = 0 \<rparr>"

definition send :: "bool \<Rightarrow> Hook \<Rightarrow> Hook" where
  "send onSend hk =
     (let hk' = (case ref_current hk of
                   Some html \<Rightarrow> hk\<lparr>ref_current := Some []\<rparr>
                 | None \<Rightarrow> hk)
      in if onSend then hk'\<lparr>onSend_calls := Suc (onSend_calls hk')\<rparr> else hk')"

definition setText :: "bool \<Rightarrow> Hook \<Rightarrow> string option \<Rightarrow> Hook" where
  "setText onChange hk text =
     (case text of
        Some t \<Rightarrow>
          hk\<lparr> content := Some t,
              onChange_calls := onChange_calls hk @ (if onChange then [t] else []) \<rparr>
      | None \<Rightarrow>
          (case ref_current hk of
             Some currentRefContent \<Rightarrow>
               hk\<lparr> content := Some currentRefContent,
                   onChange_calls :=
                     onChange_calls hk @ (if onChange then [currentRefContent] else []) \<rparr>
           | None \<Rightarrow> hk))"

text \<open>\<open>enterShouldSend\<close> is the negation of the setting \<open>MessageComposerInput.ctrlEnterToSend\<close>.\<close>

definition enterShouldSend :: "bool \<Rightarrow> bool" where
  "enterShouldSend ctrlEnterToSend = (\<not> ctrlEnterToSend)"

text \<open>The target of an event: a \<open>div\<close> element with its \<open>innerHTML\<close>, or something else.\<close>

datatype EventTarget = HTMLDivElement string | OtherTarget

definition onInput :: "(string \<Rightarrow> string) \<Rightarrow> bool \<Rightarrow> bool \<Rightarrow> Hook \<Rightarrow> EventTarget \<Rightarrow> Hook" where
  "onInput decodeHtml ctrlEnterToSend onChange hk target =
     (case target of
        HTMLDivElement innerHTML \<Rightarrow>
          (let newInnerHTML =
                 (if enterShouldSend ctrlEnterToSend then innerHTML
                  else amendInnerHtml decodeHtml innerHTML)
           in setText onChange hk (Some newInnerHTML))
      | OtherTarget \<Rightarrow> hk)"

text \<open>The hook returns \<open>onPaste: onInput\<close>.\<close>

definition onPaste :: "(string \<Rightarrow> string) \<Rightarrow> bool \<Rightarrow> bool \<Rightarrow> Hook \<Rightarrow> EventTarget \<Rightarrow> Hook" where
  "onPaste = onInput"

record KeyboardEvent =
  key :: string
  shiftKey :: bool
  ctrlKey :: bool
  metaKey :: bool
  defaultPrevented :: bool
  propagationStopped :: bool

text \<open>
  Modelled from the spec: \<open>Key.ENTER\<close> is declared in \<open>Keyboard.ts\<close>, which is not among the
  sources; the spec calls it "Enter", the value of \<open>key\<close> for that key.
\<close>

definition ENTER :: string where
  "ENTER = ''Enter''"

text \<open>
  \<open>handleEventWithAutocomplete\<close> (from \<open>./utils\<close>) and \<open>IS_MAC\<close> (from \<open>Keyboard.ts\<close>) are
  parameters. The result is the hook and the event, with what \<open>preventDefault\<close> and
  \<open>stopPropagation\<close> set on it.
\<close>

definition onKeyDown ::
  "(KeyboardEvent \<Rightarrow> bool) \<Rightarrow> bool \<Rightarrow> bool \<Rightarrow> bool \<Rightarrow> Hook \<Rightarrow> KeyboardEvent \<Rightarrow>
   Hook \<times> KeyboardEvent" where
  "onKeyDown handleEventWithAutocomplete IS_MAC ctrlEnterToSend onSend hk event =
     (let isHandledByAutocomplete = handleEventWithAutocomplete event in
      if isHandledByAutocomplete then (hk, event)
      else if key event = ENTER then
        (let sendModifierIsPressed = (if IS_MAC then metaKey event else ctrlKey event);
             (hk1, event1) =
               (if enterShouldSend ctrlEnterToSend \<and> \<not> shiftKey event
                then (send onSend hk,
                      event\<lparr>defaultPrevented := True, propagationStopped := True\<rparr>)
                else (hk, event))
         in if \<not> enterShouldSend ctrlEnterToSend \<and> sendModifierIsPressed
            then (send onSend hk1,
                  event1\<lparr>defaultPrevented := True, propagationStopped := True\<rparr>)
            else (hk1, event1))
      else (hk, event))"

section \<open>Example inputs\<close>

text \<open>
  A room \<open>!room\<close> with the message \<open>$base\<close> (object 0), one edit of it \<open>$edit1\<close> (object 1),
  and a pending redaction of that edit (object 2).
\<close>

definition ex_plain :: MatrixEvent where
  "ex_plain = \<lparr> getId = None, getType = RoomMessage, getRoomId = Some ''!room'',
                getAssociatedId = None, getTs = 0, getDate = None,
                localRedactionEvent = None \<rparr>"

definition ex_objects :: store where
  "ex_objects r =
     (if r = 0 then ex_plain\<lparr> getId := Some ''$base'' \<rparr>
      else if r = 1 then ex_plain\<lparr> getId := Some ''$edit1'', getAssociatedId := Some ''$base'' \<rparr>
      else if r = 2 then ex_plain\<lparr> getId := Some ''~local'', getType := RoomRedaction,
                                    getAssociatedId := Some ''$edit1'' \<rparr>
      else ex_plain)"

definition ex_getRoom :: "string option \<Rightarrow> Room option" where
  "ex_getRoom roomId =
     (if roomId = Some ''!room'' then Some \<lparr> getPendingEvents = [2] \<rparr> else None)"

definition ex_client :: MatrixClient where
  "ex_client = \<lparr> getRoom = ex_getRoom \<rparr>"

definition ex_props :: IProps where
  "ex_props = \<lparr> mxEvent = 0 \<rparr>"

definition ex_last_page :: RelationsResult where
  "ex_last_page = \<lparr> res_events = [1], res_originalEvent = Some 0, res_nextBatch = None \<rparr>"

definition ex_first_page :: RelationsResult where
  "ex_first_page = \<lparr> res_events = [1], res_originalEvent = Some 0, res_nextBatch = Some ''t1'' \<rparr>"

definition ex_empty_token_page :: RelationsResult where
  "ex_empty_token_page = \<lparr> res_events = [1], res_originalEvent = Some 0, res_nextBatch = Some [] \<rparr>"

definition ex_mounted :: Dialog where
  "ex_mounted = componentDidMount ex_props (mount ex_objects False)"

definition ex_exhausted :: Dialog where
  "ex_exhausted = resume ex_client ex_props ex_mounted 0 (Success ex_last_page)"

definition ex_paged :: Dialog where
  "ex_paged = resume ex_client ex_props ex_mounted 0 (Success ex_first_page)"

definition ex_unreachable_error :: MatrixError where
  "ex_unreachable_error = \<lparr> errcode = None, isMatrixError = False \<rparr>"

definition ex_empty_code_error :: MatrixError where
  "ex_empty_code_error = \<lparr> errcode = Some [], isMatrixError = True \<rparr>"

definition ex_wantsDateSeparator :: "int option \<Rightarrow> int option \<Rightarrow> bool" where
  "ex_wantsDateSeparator a b = False"

definition ex_hook :: Hook where
  "ex_hook = \<lparr> ref_current = Some ''hello'', content = Some ''hello'',
               onChange_calls = [''hello''], onSend_calls = 0 \<rparr>"

definition ex_enter :: KeyboardEvent where
  "ex_enter = \<lparr> key = ENTER, shiftKey = False, ctrlKey = False, metaKey = False,
                defaultPrevented = False, propagationStopped = False \<rparr>"

definition ex_unhandled :: "KeyboardEvent \<Rightarrow> bool" where
  "ex_unhandled event = False"

definition ex_handled :: "KeyboardEvent \<Rightarrow> bool" where
  "ex_handled event = True"

definition ex_decodeHtml :: "string \<Rightarrow> string" where
  "ex_decodeHtml html = html"

definition ex_empty_token :: Dialog where
  "ex_empty_token = resume ex_client ex_props ex_mounted 0 (Success ex_empty_token_page)"



definition ex_failed :: Dialog where
  "ex_failed = resume ex_client ex_props ex_mounted 0 (Failure ex_empty_code_error)"

section \<open>Properties of the edit history dialog\<close>

subsection \<open>Calls, answers and their effect on the dialog\<close>

lemma call_rejected:
  "loadMoreEdits_call props (objects d) (state d) backwards = ReturnsFalse \<Longrightarrow>
   loadMoreEdits props d backwards =
     d\<lparr> promises := promises d @ [(calls d, Resolved False)], calls := Suc (calls d) \<rparr>"
  by (simp add: loadMoreEdits_def)

lemma guard_rejects:
  "(loadMoreEdits_call props h st backwards = ReturnsFalse) =
   (truthy_flag backwards \<or> (\<not> truthy (nextBatch st) \<and> \<not> isLoading st))"
  by (simp add: loadMoreEdits_call_def)

lemma call_requests:
  "loadMoreEdits_call props (objects d) (state d) backwards = Requests r \<Longrightarrow>
   loadMoreEdits props d backwards =
     d\<lparr> inflight := inflight d @ [(calls d, r)], fetches := fetches d @ [r],
        calls := Suc (calls d) \<rparr>"
  by (simp add: loadMoreEdits_def)

lemma state_loadMoreEdits: "state (loadMoreEdits props d backwards) = state d"
  by (simp add: loadMoreEdits_def split: call_result.split)

lemma step_Answer:
  "map_of (inflight d) p = Some r \<Longrightarrow>
   step client props d (Answer p resp) = Some (resume client props d p resp)"
  by simp

lemma step_Answer_Some:
  "step client props d (Answer p resp) = Some d' \<Longrightarrow> d' = resume client props d p resp"
  by (simp split: option.splits)

lemma truthy_iff: "truthy s = (s \<noteq> None \<and> s \<noteq> Some [])"
  by (cases s) (simp_all add: truthy_def)

lemma mounted_dialog:
  "componentDidMount props (mount h twelve) =
     (mount h twelve)\<lparr> inflight := [(0, \<lparr> req_roomId = getRoomId (h (mxEvent props)),
                      req_eventId = getId (h (mxEvent props)),
                      req_relationType = Replace,
                      req_eventType = RoomMessage,
                      req_from = None \<rparr>)],
        fetches := [\<lparr> req_roomId = getRoomId (h (mxEvent props)),
                      req_eventId = getId (h (mxEvent props)),
                      req_relationType = Replace,
                      req_eventType = RoomMessage,
                      req_from = None \<rparr>],
        calls := 1 \<rparr>"
  by (simp add: componentDidMount_def loadMoreEdits_def loadMoreEdits_call_def mount_def
      constructor_def truthy_def truthy_flag_def)

lemma resume_success_fields:
  "state (resume client props d p (Success result)) =
     (state d)\<lparr> originalEvent := orElse (originalEvent (state d)) (res_originalEvent result),
                events := events (state d) @ res_events result,
                nextBatch := res_nextBatch result,
                isLoading := False \<rparr>"
  "objects (resume client props d p (Success result)) =
     locallyRedactEventsIfNeeded client props (res_events result) (objects d)"
  "inflight (resume client props d p (Success result)) = filter (\<lambda>q. fst q \<noteq> p) (inflight d)"
  "fetches (resume client props d p (Success result)) = fetches d"
  "promises (resume client props d p (Success result)) =
     promises d @ [(p, Resolved (truthy (res_nextBatch result)))]"
  "calls (resume client props d p (Success result)) = calls d"
  "logged (resume client props d p (Success result)) = logged d"
  by (simp_all add: resume_def loadMoreEdits_then_def Let_def)

lemma resume_failure_fields:
  "state (resume client props d p (Failure err)) = (state d)\<lparr> error := Some err \<rparr>"
  "objects (resume client props d p (Failure err)) = objects d"
  "inflight (resume client props d p (Failure err)) = filter (\<lambda>q. fst q \<noteq> p) (inflight d)"
  "fetches (resume client props d p (Failure err)) = fetches d"
  "promises (resume client props d p (Failure err)) = promises d @ [(p, Rejected err)]"
  "calls (resume client props d p (Failure err)) = calls d"
  "logged (resume client props d p (Failure err)) =
     logged d @ (if isMatrixError err \<and> truthy (errcode err) then [err] else [])"
  by (simp_all add: resume_def loadMoreEdits_catch_def)

lemma ex_mounted_eq:
  "ex_mounted = (mount ex_objects False)\<lparr> inflight := [(0, \<lparr> req_roomId = Some ''!room'',
                      req_eventId = Some ''$base'',
                      req_relationType = Replace,
                      req_eventType = RoomMessage,
                      req_from = None \<rparr>)],
        fetches := [\<lparr> req_roomId = Some ''!room'',
                      req_eventId = Some ''$base'',
                      req_relationType = Replace,
                      req_eventType = RoomMessage,
                      req_from = None \<rparr>],
        calls := 1 \<rparr>"
  by (simp add: ex_mounted_def mounted_dialog ex_props_def ex_objects_def ex_plain_def)

subsection \<open>A call that loads more edits\<close>

text \<open>
  Claim C1, as amended. A call of \<open>loadMoreEdits\<close> that passes the guard (\<open>backwards\<close> not
  requested, and the cursor truthy or \<open>isLoading\<close> set) issues exactly one request, whose
  \<open>from\<close> is the current cursor. When the request of a call in flight is answered
  successfully, the fetched events are appended to the accumulated events, the cursor becomes
  the \<open>nextBatch\<close> of the answer (null when absent), \<open>isLoading\<close> becomes false, no further
  request is issued, and the promise of the call is resolved with true if and only if the
  updated cursor is neither null nor the empty string.
\<close>

theorem loadMoreEdits_fetches_and_appends:
  "(\<not> truthy_flag backwards \<and> (truthy (nextBatch (state d)) \<or> isLoading (state d)) \<longrightarrow>
      (\<exists>r. loadMoreEdits props d backwards =
             d\<lparr> inflight := inflight d @ [(calls d, r)], fetches := fetches d @ [r],
                calls := Suc (calls d) \<rparr>
           \<and> req_from r = nextBatch (state d)))
   \<and> (map_of (inflight d') p = Some r' \<longrightarrow>
      (\<exists>d2. step client props d' (Answer p (Success result)) = Some d2
           \<and> events (state d2) = events (state d') @ res_events result
           \<and> nextBatch (state d2) = res_nextBatch result
           \<and> \<not> isLoading (state d2)
           \<and> fetches d2 = fetches d'
           \<and> promises d2 =
               promises d' @ [(p, Resolved (nextBatch (state d2) \<noteq> None
                                            \<and> nextBatch (state d2) \<noteq> Some []))]))"
proof (intro conjI impI)
  assume g: "\<not> truthy_flag backwards \<and> (truthy (nextBatch (state d)) \<or> isLoading (state d))"
  let ?r = "\<lparr> req_roomId = getRoomId (objects d (mxEvent props)),
              req_eventId = getId (objects d (mxEvent props)),
              req_relationType = Replace, req_eventType = RoomMessage,
              req_from = nextBatch (state d) \<rparr>"
  have "loadMoreEdits_call props (objects d) (state d) backwards = Requests ?r"
    using g by (auto simp add: loadMoreEdits_call_def)
  then have "loadMoreEdits props d backwards =
             d\<lparr> inflight := inflight d @ [(calls d, ?r)], fetches := fetches d @ [?r],
                calls := Suc (calls d) \<rparr>"
    by (rule call_requests)
  moreover have "req_from ?r = nextBatch (state d)" by simp
  ultimately show "\<exists>r. loadMoreEdits props d backwards =
             d\<lparr> inflight := inflight d @ [(calls d, r)], fetches := fetches d @ [r],
                calls := Suc (calls d) \<rparr>
           \<and> req_from r = nextBatch (state d)"
    by blast
next
  assume "map_of (inflight d') p = Some r'"
  then have "step client props d' (Answer p (Success result)) =
             Some (resume client props d' p (Success result))"
    by (rule step_Answer)
  then show "\<exists>d2. step client props d' (Answer p (Success result)) = Some d2
           \<and> events (state d2) = events (state d') @ res_events result
           \<and> nextBatch (state d2) = res_nextBatch result
           \<and> \<not> isLoading (state d2)
           \<and> fetches d2 = fetches d'
           \<and> promises d2 =
               promises d' @ [(p, Resolved (nextBatch (state d2) \<noteq> None
                                            \<and> nextBatch (state d2) \<noteq> Some []))]"
    by (simp add: resume_success_fields truthy_iff)
qed

text \<open>The mount call on the example room, answered with a first page.\<close>

theorem loadMoreEdits_fetches_and_appends_witness:
  "\<not> truthy_flag None
   \<and> isLoading (state (mount ex_objects False))
   \<and> map fst (inflight ex_mounted) = [0]
   \<and> map req_from (fetches ex_mounted) = [None]
   \<and> map_of (inflight ex_mounted) 0 \<noteq> None
   \<and> step ex_client ex_props ex_mounted (Answer 0 (Success ex_first_page)) = Some ex_paged
   \<and> events (state ex_paged) = [1]
   \<and> nextBatch (state ex_paged) = Some ''t1''
   \<and> \<not> isLoading (state ex_paged)
   \<and> length (fetches ex_paged) = 1
   \<and> promises ex_paged = [(0, Resolved True)]"
proof -
  have h1: "\<not> truthy_flag None \<and>
      (truthy (nextBatch (state (mount ex_objects False))) \<or> isLoading (state (mount ex_objects False)))"
    by (simp add: truthy_flag_def mount_def constructor_def)
  have h2: "map_of (inflight ex_mounted) 0 = Some
      \<lparr> req_roomId = Some ''!room'', req_eventId = Some ''$base'', req_relationType = Replace,
        req_eventType = RoomMessage, req_from = None \<rparr>"
    by (simp add: ex_mounted_eq)
  note t = loadMoreEdits_fetches_and_appends[where backwards = None
      and d = "mount ex_objects False" and props = ex_props and d' = ex_mounted and p = 0
      and client = ex_client and result = ex_first_page]
  from t h1 obtain r where r: "loadMoreEdits ex_props (mount ex_objects False) None =
        (mount ex_objects False)\<lparr> inflight := inflight (mount ex_objects False) @ [(calls (mount ex_objects False), r)],
          fetches := fetches (mount ex_objects False) @ [r],
          calls := Suc (calls (mount ex_objects False)) \<rparr>"
      "req_from r = nextBatch (state (mount ex_objects False))"
    by blast
  from t h2 obtain d2 where d2:
      "step ex_client ex_props ex_mounted (Answer 0 (Success ex_first_page)) = Some d2"
      "events (state d2) = events (state ex_mounted) @ res_events ex_first_page"
      "nextBatch (state d2) = res_nextBatch ex_first_page"
      "\<not> isLoading (state d2)"
      "fetches d2 = fetches ex_mounted"
      "promises d2 = promises ex_mounted @
         [(0, Resolved (nextBatch (state d2) \<noteq> None \<and> nextBatch (state d2) \<noteq> Some []))]"
    by blast
  have d2_eq: "d2 = ex_paged"
    using d2(1) h2 by (simp add: ex_paged_def)
  have m: "ex_mounted = loadMoreEdits ex_props (mount ex_objects False) None"
    by (simp add: ex_mounted_def componentDidMount_def)
  show ?thesis
    using h1 h2 d2[unfolded d2_eq] r
    by (simp add: m[symmetric] ex_first_page_def) (simp add: ex_mounted_eq mount_def constructor_def)
qed

text \<open>
  C1 as stated fails for an answer whose \<open>nextBatch\<close> is the empty string: the updated
  cursor is not null, and the promise is resolved with false, since \<open>!!""\<close> is false.
\<close>

theorem loadMoreEdits_empty_cursor_counterexample:
  "step ex_client ex_props ex_mounted (Answer 0 (Success ex_empty_token_page)) = Some ex_empty_token
   \<and> nextBatch (state ex_empty_token) = Some []
   \<and> nextBatch (state ex_empty_token) \<noteq> None
   \<and> promises ex_empty_token = [(0, Resolved False)]"
  by (simp add: ex_empty_token_def resume_success_fields ex_empty_token_page_def ex_mounted_eq
      mount_def truthy_def)

subsection \<open>Rejected calls\<close>

lemma exhausted_calls:
  assumes "nextBatch (state d) = None" "\<not> isLoading (state d)"
  shows "fetches (foldl (loadMoreEdits props) d bs) = fetches d
       \<and> inflight (foldl (loadMoreEdits props) d bs) = inflight d
       \<and> state (foldl (loadMoreEdits props) d bs) = state d
       \<and> promises (foldl (loadMoreEdits props) d bs) =
           promises d @ map (\<lambda>i. (i, Resolved False)) [calls d ..< calls d + length bs]"
  using assms
proof (induction bs arbitrary: d)
  case Nil
  then show ?case by simp
next
  case (Cons b bs)
  let ?d = "loadMoreEdits props d b"
  have rej: "loadMoreEdits_call props (objects d) (state d) b = ReturnsFalse"
    using Cons.prems by (simp add: guard_rejects truthy_def)
  have eq: "?d = d\<lparr> promises := promises d @ [(calls d, Resolved False)], calls := Suc (calls d) \<rparr>"
    using rej by (rule call_rejected)
  have st: "state ?d = state d" by (simp add: eq)
  have "nextBatch (state ?d) = None" "\<not> isLoading (state ?d)"
    using Cons.prems st by simp_all
  from Cons.IH[OF this]
  have ih: "fetches (foldl (loadMoreEdits props) ?d bs) = fetches ?d"
    "inflight (foldl (loadMoreEdits props) ?d bs) = inflight ?d"
    "state (foldl (loadMoreEdits props) ?d bs) = state ?d"
    "promises (foldl (loadMoreEdits props) ?d bs) =
       promises ?d @ map (\<lambda>i. (i, Resolved False)) [calls ?d ..< calls ?d + length bs]"
    by blast+
  have up: "[calls d ..< calls d + length (b # bs)] = calls d # [calls ?d ..< calls ?d + length bs]"
  proof -
    have "[calls d ..< calls d + Suc (length bs)] =
          calls d # [Suc (calls d) ..< calls d + Suc (length bs)]"
      by (rule upt_conv_Cons) simp
    moreover have "calls ?d = Suc (calls d)" by (simp add: eq)
    ultimately show ?thesis by (simp only: length_Cons add_Suc_right add_Suc)
  qed
  have fold: "foldl (loadMoreEdits props) d (b # bs) = foldl (loadMoreEdits props) ?d bs"
    by simp
  show ?case
    unfolding fold up ih by (simp add: eq)
qed

text \<open>
  Claim C2. A call of \<open>loadMoreEdits\<close> with \<open>backwards\<close> true returns \<open>false\<close> (its promise
  is resolved with \<open>false\<close> at once) and issues no request: nothing but the promise and the
  call counter changes. The same holds whenever the cursor is null and \<open>isLoading\<close> is false.
  In particular, when the request issued at mount is answered with \<open>nextBatch = null\<close>,
  exactly one request has been issued, and after any further calls, whatever their arguments,
  the requests issued are still that one, none is in flight and every such call has returned
  \<open>false\<close>.
\<close>

theorem loadMoreEdits_rejects:
  "(truthy_flag backwards \<longrightarrow>
      loadMoreEdits props d backwards =
        d\<lparr> promises := promises d @ [(calls d, Resolved False)], calls := Suc (calls d) \<rparr>)
   \<and> (nextBatch (state d) = None \<and> \<not> isLoading (state d) \<longrightarrow>
      loadMoreEdits props d backwards =
        d\<lparr> promises := promises d @ [(calls d, Resolved False)], calls := Suc (calls d) \<rparr>)
   \<and> (res_nextBatch result = None \<longrightarrow>
       (let d0 = componentDidMount props (mount h twelve);
            d1 = resume client props d0 0 (Success result)
        in step client props d0 (Answer 0 (Success result)) = Some d1
         \<and> length (fetches d1) = 1
         \<and> (\<forall>bs. fetches (foldl (loadMoreEdits props) d1 bs) = fetches d1
                \<and> inflight (foldl (loadMoreEdits props) d1 bs) = []
                \<and> promises (foldl (loadMoreEdits props) d1 bs) =
                    promises d1 @ map (\<lambda>i. (i, Resolved False)) [1 ..< 1 + length bs])))"
proof (intro conjI impI)
  assume "truthy_flag backwards"
  then have "loadMoreEdits_call props (objects d) (state d) backwards = ReturnsFalse"
    by (simp add: guard_rejects)
  then show "loadMoreEdits props d backwards =
        d\<lparr> promises := promises d @ [(calls d, Resolved False)], calls := Suc (calls d) \<rparr>"
    by (rule call_rejected)
next
  assume "nextBatch (state d) = None \<and> \<not> isLoading (state d)"
  then have "loadMoreEdits_call props (objects d) (state d) backwards = ReturnsFalse"
    by (simp add: guard_rejects truthy_def)
  then show "loadMoreEdits props d backwards =
        d\<lparr> promises := promises d @ [(calls d, Resolved False)], calls := Suc (calls d) \<rparr>"
    by (rule call_rejected)
next
  assume last: "res_nextBatch result = None"
  define d0 where "d0 = componentDidMount props (mount h twelve)"
  define d1 where "d1 = resume client props d0 0 (Success result)"
  have inf0: "map fst (inflight d0) = [0]" and f0: "length (fetches d0) = 1"
    by (simp_all add: d0_def mounted_dialog)
  have stp: "step client props d0 (Answer 0 (Success result)) = Some d1"
    by (simp add: d0_def d1_def mounted_dialog)
  have nb: "nextBatch (state d1) = None" and nl: "\<not> isLoading (state d1)"
    using last by (simp_all add: d1_def resume_success_fields)
  have inf1: "inflight d1 = []" and c1: "calls d1 = 1" and f1: "length (fetches d1) = 1"
    by (simp_all add: d1_def resume_success_fields d0_def mounted_dialog)
  have "\<forall>bs. fetches (foldl (loadMoreEdits props) d1 bs) = fetches d1
                \<and> inflight (foldl (loadMoreEdits props) d1 bs) = []
                \<and> promises (foldl (loadMoreEdits props) d1 bs) =
                    promises d1 @ map (\<lambda>i. (i, Resolved False)) [1 ..< 1 + length bs]"
    using exhausted_calls[OF nb nl, of props] inf1 c1 by simp
  with stp f1 show "let d0 = componentDidMount props (mount h twelve);
            d1 = resume client props d0 0 (Success result)
        in step client props d0 (Answer 0 (Success result)) = Some d1
         \<and> length (fetches d1) = 1
         \<and> (\<forall>bs. fetches (foldl (loadMoreEdits props) d1 bs) = fetches d1
                \<and> inflight (foldl (loadMoreEdits props) d1 bs) = []
                \<and> promises (foldl (loadMoreEdits props) d1 bs) =
                    promises d1 @ map (\<lambda>i. (i, Resolved False)) [1 ..< 1 + length bs])"
    unfolding Let_def d0_def[symmetric] d1_def[symmetric] by blast
qed

text \<open>The three cases on the example room.\<close>

theorem loadMoreEdits_rejects_witness:
  "truthy_flag (Some True)
   \<and> nextBatch (state ex_exhausted) = None \<and> \<not> isLoading (state ex_exhausted)
   \<and> res_nextBatch ex_last_page = None
   \<and> fetches (loadMoreEdits ex_props ex_paged (Some True)) = fetches ex_paged
   \<and> promises (loadMoreEdits ex_props ex_paged (Some True)) = promises ex_paged @ [(1, Resolved False)]
   \<and> fetches (loadMoreEdits ex_props ex_exhausted (Some False)) = fetches ex_exhausted
   \<and> promises (loadMoreEdits ex_props ex_exhausted (Some False)) =
        promises ex_exhausted @ [(1, Resolved False)]
   \<and> step ex_client ex_props ex_mounted (Answer 0 (Success ex_last_page)) = Some ex_exhausted
   \<and> length (fetches (foldl (loadMoreEdits ex_props) ex_exhausted [None, Some False, Some True])) = 1
   \<and> promises (foldl (loadMoreEdits ex_props) ex_exhausted [None, Some False, Some True]) =
        [(0, Resolved False), (1, Resolved False), (2, Resolved False), (3, Resolved False)]"
proof -
  have h1: "truthy_flag (Some True)"
    by (simp add: truthy_flag_def)
  have h2: "nextBatch (state ex_exhausted) = None \<and> \<not> isLoading (state ex_exhausted)"
    by (simp add: ex_exhausted_def resume_success_fields ex_last_page_def)
  have h3: "res_nextBatch ex_last_page = None"
    by (simp add: ex_last_page_def)
  have c_paged: "calls ex_paged = 1" and c_exh: "calls ex_exhausted = 1"
    by (simp_all add: ex_paged_def ex_exhausted_def resume_success_fields ex_mounted_eq)
  have p_exh: "promises ex_exhausted = [(0, Resolved False)]"
    by (simp add: ex_exhausted_def resume_success_fields ex_mounted_eq ex_last_page_def
        truthy_def mount_def)
  have a: "loadMoreEdits ex_props ex_paged (Some True) =
        ex_paged\<lparr> promises := promises ex_paged @ [(calls ex_paged, Resolved False)],
                  calls := Suc (calls ex_paged) \<rparr>"
    using loadMoreEdits_rejects[where backwards = "Some True" and props = ex_props
        and d = ex_paged] h1 by blast
  have b: "loadMoreEdits ex_props ex_exhausted (Some False) =
        ex_exhausted\<lparr> promises := promises ex_exhausted @ [(calls ex_exhausted, Resolved False)],
                  calls := Suc (calls ex_exhausted) \<rparr>"
    using loadMoreEdits_rejects[where backwards = "Some False" and props = ex_props
        and d = ex_exhausted] h2 by blast
  have c: "step ex_client ex_props ex_mounted (Answer 0 (Success ex_last_page)) = Some ex_exhausted
      \<and> length (fetches ex_exhausted) = 1
      \<and> (\<forall>bs. fetches (foldl (loadMoreEdits ex_props) ex_exhausted bs) = fetches ex_exhausted
             \<and> inflight (foldl (loadMoreEdits ex_props) ex_exhausted bs) = []
             \<and> promises (foldl (loadMoreEdits ex_props) ex_exhausted bs) =
                 promises ex_exhausted @ map (\<lambda>i. (i, Resolved False)) [1 ..< 1 + length bs])"
    using loadMoreEdits_rejects[where result = ex_last_page and props = ex_props
        and h = ex_objects and twelve = False and client = ex_client] h3
    unfolding Let_def ex_mounted_def[symmetric] ex_exhausted_def[symmetric] by blast
  then have c': "fetches (foldl (loadMoreEdits ex_props) ex_exhausted [None, Some False, Some True])
        = fetches ex_exhausted"
    "promises (foldl (loadMoreEdits ex_props) ex_exhausted [None, Some False, Some True]) =
       promises ex_exhausted @ map (\<lambda>i. (i, Resolved False)) [1 ..< 1 + length [None, Some False, Some True]]"
    by blast+
  have up: "[1 ..< 1 + length [None, Some False, Some True :: bool option]] = [1, 2, 3]"
    by (simp add: upt_rec)
  show ?thesis
    using h1 h2 h3 c c' by (simp add: a b c_paged c_exh p_exh up)
qed

subsection \<open>Requests in flight\<close>


lemma render_error_not_panel:
  "error st = Some err \<Longrightarrow> render w props h st \<noteq> ScrollPanel nodes"
  by (simp add: render_def)












subsection \<open>Failed requests\<close>

text \<open>
  Claim C4. When the request of a call in flight fails, the error thrown is stored in the
  state (nothing else of the state changes), the promise of the call is rejected with that
  error, and no request is issued: the requests issued so far are the same, one fewer is in
  flight, and what is rendered is not the scroll panel, so the view asks for no more edits.
\<close>

theorem loadMoreEdits_failure:
  "map_of (inflight d) p = Some r \<longrightarrow>
     (\<exists>d'. step client props d (Answer p (Failure err)) = Some d'
          \<and> state d' = (state d)\<lparr> error := Some err \<rparr>
          \<and> promises d' = promises d @ [(p, Rejected err)]
          \<and> fetches d' = fetches d
          \<and> length (inflight d') < length (inflight d)
          \<and> (\<forall>nodes. render w props (objects d') (state d') \<noteq> ScrollPanel nodes))"
proof
  assume inf: "map_of (inflight d) p = Some r"
  then have s: "step client props d (Answer p (Failure err)) =
      Some (resume client props d p (Failure err))"
    by (rule step_Answer)
  from inf have "(p, r) \<in> set (inflight d)"
    by (rule map_of_SomeD)
  then have "length (filter (\<lambda>q. fst q \<noteq> p) (inflight d)) < length (inflight d)"
    by (rule length_filter_less) simp
  moreover have "\<forall>nodes. render w props (objects (resume client props d p (Failure err)))
      (state (resume client props d p (Failure err))) \<noteq> ScrollPanel nodes"
    by (simp add: resume_failure_fields render_error_not_panel)
  ultimately show "\<exists>d'. step client props d (Answer p (Failure err)) = Some d'
          \<and> state d' = (state d)\<lparr> error := Some err \<rparr>
          \<and> promises d' = promises d @ [(p, Rejected err)]
          \<and> fetches d' = fetches d
          \<and> length (inflight d') < length (inflight d)
          \<and> (\<forall>nodes. render w props (objects d') (state d') \<noteq> ScrollPanel nodes)"
    using s by (simp add: resume_failure_fields)
qed

text \<open>The mount request of the example dialog fails without an error code.\<close>

theorem loadMoreEdits_failure_witness:
  "map_of (inflight ex_mounted) 0 \<noteq> None
   \<and> step ex_client ex_props ex_mounted (Answer 0 (Failure ex_unreachable_error))
       = Some (resume ex_client ex_props ex_mounted 0 (Failure ex_unreachable_error))
   \<and> error (state (resume ex_client ex_props ex_mounted 0 (Failure ex_unreachable_error)))
       = Some ex_unreachable_error
   \<and> promises (resume ex_client ex_props ex_mounted 0 (Failure ex_unreachable_error))
       = [(0, Rejected ex_unreachable_error)]
   \<and> length (fetches (resume ex_client ex_props ex_mounted 0 (Failure ex_unreachable_error))) = 1
   \<and> inflight (resume ex_client ex_props ex_mounted 0 (Failure ex_unreachable_error)) = []"
proof -
  have h: "map_of (inflight ex_mounted) 0 = Some
      \<lparr> req_roomId = Some ''!room'', req_eventId = Some ''$base'', req_relationType = Replace,
        req_eventType = RoomMessage, req_from = None \<rparr>"
    by (simp add: ex_mounted_eq)
  from loadMoreEdits_failure[where d = ex_mounted and p = 0 and client = ex_client
      and props = ex_props and err = ex_unreachable_error and w = ex_wantsDateSeparator] h
  obtain d' where d':
    "step ex_client ex_props ex_mounted (Answer 0 (Failure ex_unreachable_error)) = Some d'"
    "state d' = (state ex_mounted)\<lparr> error := Some ex_unreachable_error \<rparr>"
    "promises d' = promises ex_mounted @ [(0, Rejected ex_unreachable_error)]"
    "fetches d' = fetches ex_mounted"
    "length (inflight d') < length (inflight ex_mounted)"
    by blast
  have eq: "d' = resume ex_client ex_props ex_mounted 0 (Failure ex_unreachable_error)"
    using d'(1) h by simp
  have "length (inflight ex_mounted) = 1"
    by (simp add: ex_mounted_eq)
  with d'(5) have "inflight d' = []" by simp
  with d' h show ?thesis
    unfolding eq by (simp add: ex_mounted_eq mount_def)
qed

subsection \<open>The edit list is append-only\<close>

lemma step_events_prefix:
  "step client props d a = Some d' \<Longrightarrow> prefix (events (state d)) (events (state d'))"
proof (cases a)
  case (Call backwards)
  assume "step client props d a = Some d'"
  with Call show ?thesis
    by (auto simp add: state_loadMoreEdits)
next
  case (Answer p resp)
  assume "step client props d a = Some d'"
  with Answer have "d' = resume client props d p resp"
    by (simp add: step_Answer_Some)
  then show ?thesis
    by (cases resp) (simp_all add: resume_success_fields resume_failure_fields)
qed

text \<open>
  Claim C5. Along any sequence of calls and answers, the events list of the state before is a
  prefix of the events list after: elements are only ever appended.
\<close>

theorem events_append_only:
  "run client props d as = Some d' \<Longrightarrow> prefix (events (state d)) (events (state d'))"
proof (induction as arbitrary: d)
  case Nil
  then show ?case by simp
next
  case (Cons a as)
  from Cons.prems obtain d1 where s: "step client props d a = Some d1"
    and r: "run client props d1 as = Some d'"
    by (auto split: option.splits)
  from s have "prefix (events (state d)) (events (state d1))"
    by (rule step_events_prefix)
  moreover from r have "prefix (events (state d1)) (events (state d'))"
    by (rule Cons.IH)
  ultimately show ?case
    by (rule prefix_order.trans)
qed

text \<open>Four more actions on the example dialog after its first page.\<close>

theorem events_append_only_witness:
  "run ex_client ex_props ex_paged
     [Call None, Call (Some True), Answer 1 (Success ex_last_page), Call (Some False)] \<noteq> None
   \<and> events (state ex_paged) = [1]
   \<and> prefix (events (state ex_paged))
       (events (state (the (run ex_client ex_props ex_paged
          [Call None, Call (Some True), Answer 1 (Success ex_last_page), Call (Some False)]))))
   \<and> events (state (the (run ex_client ex_props ex_paged
          [Call None, Call (Some True), Answer 1 (Success ex_last_page), Call (Some False)]))) = [1, 1]"
proof -
  let ?as = "[Call None, Call (Some True), Answer 1 (Success ex_last_page), Call (Some False)]"
  have p: "ex_paged = (mount ex_objects False)\<lparr>
      state := (constructor False)\<lparr> originalEvent := Some 0, events := [1],
                 nextBatch := Some ''t1'', isLoading := False \<rparr>,
      objects := locallyRedactEventsIfNeeded ex_client ex_props [1] ex_objects,
      fetches := fetches ex_mounted, promises := [(0, Resolved True)], calls := 1 \<rparr>"
    by (simp add: ex_paged_def resume_def loadMoreEdits_then_def Let_def ex_mounted_eq
        ex_first_page_def mount_def constructor_def orElse_def truthy_def)
  have r: "run ex_client ex_props ex_paged ?as \<noteq> None"
    and e: "events (state (the (run ex_client ex_props ex_paged ?as))) = [1, 1]"
    by (simp_all add: p loadMoreEdits_def loadMoreEdits_call_def truthy_def truthy_flag_def
        resume_def loadMoreEdits_then_def Let_def ex_last_page_def mount_def constructor_def)
  from r obtain d' where d': "run ex_client ex_props ex_paged ?as = Some d'"
    by blast
  from events_append_only[OF d'] have "prefix (events (state ex_paged)) (events (state d'))" .
  with r e d' show ?thesis
    by (simp add: p)
qed

subsection \<open>Pending redactions\<close>

lemma isPendingRedactionOf_mark:
  "isPendingRedactionOf (h(x := markLocallyRedacted (h x) pr)) e = isPendingRedactionOf h e"
  by (auto simp add: fun_eq_iff isPendingRedactionOf_def markLocallyRedacted_def)

lemma markLocallyRedacted_twice:
  "markLocallyRedacted (markLocallyRedacted e pr) pr = markLocallyRedacted e pr"
  by (simp add: markLocallyRedacted_def)

lemma redactLoop_object:
  "redactLoop pendingEvents es h e =
     (if e \<in> set es
      then (case find (isPendingRedactionOf h e) pendingEvents of
              None \<Rightarrow> h e
            | Some pr \<Rightarrow> markLocallyRedacted (h e) pr)
      else h e)"
proof (induction es arbitrary: h)
  case Nil
  show ?case by simp
next
  case (Cons x es)
  show ?case
  proof (cases "find (isPendingRedactionOf h x) pendingEvents")
    case None
    then show ?thesis
      by (simp add: Cons.IH)
  next
    case (Some pr)
    show ?thesis
    proof (cases "e = x")
      case True
      from Some have "find (isPendingRedactionOf h e) pendingEvents = Some pr"
        by (simp add: True)
      then show ?thesis
        unfolding True[symmetric]
        by (simp add: Cons.IH isPendingRedactionOf_mark markLocallyRedacted_twice)
    next
      case False
      with Some show ?thesis
        by (simp add: Cons.IH isPendingRedactionOf_mark split: option.split)
    qed
  qed
qed

lemma find_first_match:
  "\<exists>pe \<in> set xs. P pe \<Longrightarrow> \<exists>pr \<in> set xs. P pr \<and> find P xs = Some pr"
  by (induction xs) auto

text \<open>
  Claim C6. When a batch is committed by a successful answer, and the client knows the room
  of the dialog's event: every new event whose id equals the associated id of some pending
  event of that room of type \<open>m.room.redaction\<close> is, in the store that is committed together
  with the new state, marked as locally redacted with such a pending redaction; every object
  for which there is no such pending redaction, and every object outside the batch, is
  unchanged; and the batch is what was appended to the events of the state.
\<close>

theorem new_events_locally_redacted:
  assumes "getRoom client (getRoomId (h (mxEvent props))) = Some room"
    and "loadMoreEdits_then client props h st result = (h', st', s)"
  shows "(\<forall>e \<in> set (res_events result).
            (\<exists>pe \<in> set (getPendingEvents room).
               getType (h pe) = RoomRedaction \<and> getAssociatedId (h pe) = getId (h e)) \<longrightarrow>
            (\<exists>pr \<in> set (getPendingEvents room).
               getType (h pr) = RoomRedaction \<and> getAssociatedId (h pr) = getId (h e)
               \<and> h' e = markLocallyRedacted (h e) pr
               \<and> localRedactionEvent (h' e) = Some pr))
       \<and> (\<forall>e. \<not> (\<exists>pe \<in> set (getPendingEvents room).
               getType (h pe) = RoomRedaction \<and> getAssociatedId (h pe) = getId (h e)) \<longrightarrow>
            h' e = h e)
       \<and> (\<forall>e. e \<notin> set (res_events result) \<longrightarrow> h' e = h e)
       \<and> events st' = events st @ res_events result"
proof -
  let ?pend = "getPendingEvents room"
  have h': "h' = redactLoop ?pend (res_events result) h"
    and st': "events st' = events st @ res_events result"
  proof -
    from assms(2) have "h' = locallyRedactEventsIfNeeded client props (res_events result) h"
      by (simp add: loadMoreEdits_then_def Let_def)
    with assms(1) show "h' = redactLoop ?pend (res_events result) h"
      by (simp add: locallyRedactEventsIfNeeded_def)
    from assms(2) show "events st' = events st @ res_events result"
      by (auto simp add: loadMoreEdits_then_def Let_def)
  qed
  have marked: "\<exists>pr \<in> set ?pend.
               getType (h pr) = RoomRedaction \<and> getAssociatedId (h pr) = getId (h e)
               \<and> h' e = markLocallyRedacted (h e) pr
               \<and> localRedactionEvent (h' e) = Some pr"
    if e: "e \<in> set (res_events result)"
      and m: "\<exists>pe \<in> set ?pend.
               getType (h pe) = RoomRedaction \<and> getAssociatedId (h pe) = getId (h e)" for e
  proof -
    from m have "\<exists>pe \<in> set ?pend. isPendingRedactionOf h e pe"
      by (simp add: isPendingRedactionOf_def)
    then have "\<exists>pr \<in> set ?pend. isPendingRedactionOf h e pr
        \<and> find (isPendingRedactionOf h e) ?pend = Some pr"
      by (rule find_first_match)
    then obtain pr where pr: "pr \<in> set ?pend" "isPendingRedactionOf h e pr"
      "find (isPendingRedactionOf h e) ?pend = Some pr"
      by (elim bexE conjE)
    from e pr(3) have eq: "h' e = markLocallyRedacted (h e) pr"
      by (simp add: h' redactLoop_object)
    then have "localRedactionEvent (h' e) = Some pr"
      by (simp add: markLocallyRedacted_def)
    moreover from pr(2) have "getType (h pr) = RoomRedaction"
      and "getAssociatedId (h pr) = getId (h e)"
      by (simp_all add: isPendingRedactionOf_def)
    ultimately show ?thesis
      using pr(1) eq by (intro bexI[of _ pr] conjI)
  qed
  have unmatched: "h' e = h e"
    if "\<not> (\<exists>pe \<in> set ?pend.
               getType (h pe) = RoomRedaction \<and> getAssociatedId (h pe) = getId (h e))" for e
  proof -
    from that have "find (isPendingRedactionOf h e) ?pend = None"
      by (simp add: find_None_iff isPendingRedactionOf_def)
    then show ?thesis
      by (simp add: h' redactLoop_object)
  qed
  have others: "h' e = h e" if "e \<notin> set (res_events result)" for e
    using that by (simp add: h' redactLoop_object)
  show ?thesis
  proof (intro conjI ballI allI impI)
    fix e
    assume "e \<in> set (res_events result)"
      and "\<exists>pe \<in> set ?pend.
               getType (h pe) = RoomRedaction \<and> getAssociatedId (h pe) = getId (h e)"
    then show "\<exists>pr \<in> set ?pend.
               getType (h pr) = RoomRedaction \<and> getAssociatedId (h pr) = getId (h e)
               \<and> h' e = markLocallyRedacted (h e) pr
               \<and> localRedactionEvent (h' e) = Some pr"
      by (rule marked)
  next
    fix e
    assume "\<not> (\<exists>pe \<in> set ?pend.
               getType (h pe) = RoomRedaction \<and> getAssociatedId (h pe) = getId (h e))"
    then show "h' e = h e"
      by (rule unmatched)
  next
    fix e
    assume "e \<notin> set (res_events result)"
    then show "h' e = h e"
      by (rule others)
  next
    show "events st' = events st @ res_events result"
      by (rule st')
  qed
qed

text \<open>The edit of the example room has a pending redaction; the base message has none.\<close>

theorem new_events_locally_redacted_witness:
  "getRoom ex_client (getRoomId (ex_objects (mxEvent ex_props))) = Some \<lparr> getPendingEvents = [2] \<rparr>
   \<and> loadMoreEdits_then ex_client ex_props ex_objects (state ex_mounted) ex_first_page
       = (objects ex_paged, state ex_paged, Resolved True)
   \<and> res_events ex_first_page = [1]
   \<and> getType (ex_objects 2) = RoomRedaction
   \<and> getAssociatedId (ex_objects 2) = getId (ex_objects 1)
   \<and> localRedactionEvent (ex_objects 1) = None
   \<and> localRedactionEvent (objects ex_paged 1) = Some 2
   \<and> objects ex_paged 0 = ex_objects 0
   \<and> events (state ex_paged) = [1]"
proof -
  have h1: "getRoom ex_client (getRoomId (ex_objects (mxEvent ex_props)))
      = Some \<lparr> getPendingEvents = [2] \<rparr>"
    by (simp add: ex_client_def ex_getRoom_def ex_props_def ex_objects_def ex_plain_def)
  have h2: "loadMoreEdits_then ex_client ex_props ex_objects (state ex_mounted) ex_first_page
       = (objects ex_paged, state ex_paged, Resolved True)"
    by (simp add: ex_paged_def resume_def loadMoreEdits_then_def Let_def ex_mounted_eq
        mount_def ex_first_page_def truthy_def)
  have facts: "res_events ex_first_page = [1]" "getType (ex_objects 2) = RoomRedaction"
    "getAssociatedId (ex_objects 2) = getId (ex_objects 1)"
    "localRedactionEvent (ex_objects 1) = None"
    "getAssociatedId (ex_objects 2) \<noteq> getId (ex_objects 0)"
    by (simp_all add: ex_first_page_def ex_objects_def ex_plain_def)
  note t = new_events_locally_redacted[OF h1 h2]
  note t1 = t[THEN conjunct1]
    and t2 = t[THEN conjunct2, THEN conjunct1]
    and c = t[THEN conjunct2, THEN conjunct2, THEN conjunct2]
  from t1 have a: "localRedactionEvent (objects ex_paged 1) = Some 2"
    using facts by (simp add: markLocallyRedacted_def)
  from t2[rule_format, of 0] have b: "objects ex_paged 0 = ex_objects 0"
    using facts by simp
  show ?thesis
    using h1 h2 facts a b c by (simp add: ex_mounted_eq mount_def constructor_def)
qed

subsection \<open>Error messages\<close>

lemma messages_distinct:
  "msg_unsupported \<noteq> msg_server_error" "msg_unsupported \<noteq> msg_unreachable"
  "msg_server_error \<noteq> msg_unreachable"
  by (simp_all add: msg_unsupported_def msg_server_error_def msg_unreachable_def)

text \<open>
  Claim C9, as amended. When an error is stored, what is rendered depends on the error code
  only: the "unsupported" message if and only if the code is \<open>M_UNRECOGNIZED\<close>, the generic
  message if and only if the code is some other non-empty string, and the "cannot reach
  homeserver" message if and only if the code is absent or the empty string. It is always
  one of these three static messages, never the scroll panel that could ask for more edits.
\<close>

theorem render_error_message:
  "error st = Some err \<Longrightarrow>
     (render w props h st = ErrorText msg_unsupported \<longleftrightarrow> errcode err = Some ''M_UNRECOGNIZED'')
   \<and> (render w props h st = ErrorText msg_server_error \<longleftrightarrow>
        (\<exists>c. errcode err = Some c \<and> c \<noteq> [] \<and> c \<noteq> ''M_UNRECOGNIZED''))
   \<and> (render w props h st = ErrorText msg_unreachable \<longleftrightarrow>
        (errcode err = None \<or> errcode err = Some []))
   \<and> render w props h st \<in> {ErrorText msg_unsupported, ErrorText msg_server_error,
                               ErrorText msg_unreachable}"
  using messages_distinct
  by (cases "errcode err") (auto simp add: render_def truthy_def)

text \<open>The example dialog after a failure without an error code.\<close>

theorem render_error_message_witness:
  "error (state (resume ex_client ex_props ex_mounted 0 (Failure ex_unreachable_error)))
     = Some ex_unreachable_error
   \<and> errcode ex_unreachable_error = None
   \<and> render ex_wantsDateSeparator ex_props ex_objects
       (state (resume ex_client ex_props ex_mounted 0 (Failure ex_unreachable_error)))
     = ErrorText msg_unreachable"
proof -
  have h: "error (state (resume ex_client ex_props ex_mounted 0 (Failure ex_unreachable_error)))
     = Some ex_unreachable_error"
    by (simp add: resume_failure_fields)
  have c: "errcode ex_unreachable_error = None"
    by (simp add: ex_unreachable_error_def)
  from render_error_message[OF h, of ex_wantsDateSeparator ex_props ex_objects] c
  have "render ex_wantsDateSeparator ex_props ex_objects
       (state (resume ex_client ex_props ex_mounted 0 (Failure ex_unreachable_error)))
     = ErrorText msg_unreachable"
    by blast
  with h c show ?thesis by blast
qed

text \<open>
  C9 as stated fails for an error whose code is the empty string: a code is present, and
  the message rendered is the one for an unreachable homeserver, since \<open>""\<close> is false in a
  condition.
\<close>

theorem render_empty_code_counterexample:
  "error (state ex_failed) = Some ex_empty_code_error
   \<and> errcode ex_empty_code_error \<noteq> None
   \<and> errcode ex_empty_code_error \<noteq> Some ''M_UNRECOGNIZED''
   \<and> render ex_wantsDateSeparator ex_props (objects ex_failed) (state ex_failed)
       = ErrorText msg_unreachable
   \<and> render ex_wantsDateSeparator ex_props (objects ex_failed) (state ex_failed)
       \<noteq> ErrorText msg_server_error"
  by (simp add: ex_failed_def resume_failure_fields ex_empty_code_error_def render_def
      truthy_def messages_distinct(3)[symmetric])

section \<open>Properties of the composer hook\<close>

subsection \<open>Key-down events and sending\<close>

lemma send_fields:
  "ref_current (send onSend hk) = map_option (\<lambda>html. []) (ref_current hk)"
  "onSend_calls (send onSend hk) = (if onSend then Suc (onSend_calls hk) else onSend_calls hk)"
  "content (send onSend hk) = content hk"
  "onChange_calls (send onSend hk) = onChange_calls hk"
  by (simp_all add: send_def Let_def split: option.split)

text \<open>
  Claim C7. For a key-down event that the autocomplete does not handle and whose key is Enter:
  with "enter sends" enabled, \<open>send\<close> runs (once) if Shift is not held and nothing happens to
  the hook otherwise; with "enter sends" disabled, \<open>send\<close> runs (once) if the send modifier is
  held (\<open>metaKey\<close> on a Mac, \<open>ctrlKey\<close> elsewhere) and nothing happens otherwise. An event the
  autocomplete handles changes nothing. \<open>send\<close> empties the editor node and calls \<open>onSend\<close>
  when one was given.
\<close>

theorem onKeyDown_enter_sends:
  "(\<not> handleEventWithAutocomplete event \<and> key event = ENTER \<and> enterShouldSend ctrlEnterToSend \<longrightarrow>
      fst (onKeyDown handleEventWithAutocomplete IS_MAC ctrlEnterToSend onSend hk event) =
        (if \<not> shiftKey event then send onSend hk else hk))
   \<and> (\<not> handleEventWithAutocomplete event \<and> key event = ENTER \<and> \<not> enterShouldSend ctrlEnterToSend \<longrightarrow>
      fst (onKeyDown handleEventWithAutocomplete IS_MAC ctrlEnterToSend onSend hk event) =
        (if (if IS_MAC then metaKey event else ctrlKey event) then send onSend hk else hk))
   \<and> (handleEventWithAutocomplete event \<longrightarrow>
      onKeyDown handleEventWithAutocomplete IS_MAC ctrlEnterToSend onSend hk event = (hk, event))
   \<and> ref_current (send onSend hk) = map_option (\<lambda>html. []) (ref_current hk)
   \<and> onSend_calls (send onSend hk) = (if onSend then Suc (onSend_calls hk) else onSend_calls hk)"
  by (simp add: onKeyDown_def Let_def send_fields)

text \<open>Enter on the example hook, with each setting and modifier.\<close>

theorem onKeyDown_enter_sends_witness:
  "\<not> ex_unhandled ex_enter \<and> key ex_enter = ENTER \<and> enterShouldSend False
   \<and> \<not> enterShouldSend True \<and> ex_handled ex_enter \<and> \<not> shiftKey ex_enter
   \<and> fst (onKeyDown ex_unhandled False False True ex_hook ex_enter) = send True ex_hook
   \<and> fst (onKeyDown ex_unhandled False False True ex_hook (ex_enter\<lparr>shiftKey := True\<rparr>)) = ex_hook
   \<and> fst (onKeyDown ex_unhandled False True True ex_hook (ex_enter\<lparr>ctrlKey := True\<rparr>))
       = send True ex_hook
   \<and> fst (onKeyDown ex_unhandled True True True ex_hook (ex_enter\<lparr>metaKey := True\<rparr>))
       = send True ex_hook
   \<and> fst (onKeyDown ex_unhandled True True True ex_hook (ex_enter\<lparr>ctrlKey := True\<rparr>)) = ex_hook
   \<and> fst (onKeyDown ex_unhandled False True True ex_hook ex_enter) = ex_hook
   \<and> onKeyDown ex_handled False False True ex_hook ex_enter = (ex_hook, ex_enter)
   \<and> ref_current (send True ex_hook) = Some []
   \<and> onSend_calls (send True ex_hook) = 1"
proof -
  have h: "\<not> ex_unhandled e" "ex_handled e" "key ex_enter = ENTER" "enterShouldSend False"
    "\<not> enterShouldSend True" "\<not> shiftKey ex_enter" "\<not> ctrlKey ex_enter" "\<not> metaKey ex_enter"
    for e
    by (simp_all add: ex_unhandled_def ex_handled_def ex_enter_def enterShouldSend_def)
  note t = onKeyDown_enter_sends[where hk = ex_hook and onSend = True]
  have a: "fst (onKeyDown ex_unhandled False False True ex_hook ex_enter) = send True ex_hook"
    using t[where handleEventWithAutocomplete = ex_unhandled and event = ex_enter
        and ctrlEnterToSend = False and IS_MAC = False] h by simp
  have b: "fst (onKeyDown ex_unhandled False False True ex_hook (ex_enter\<lparr>shiftKey := True\<rparr>)) = ex_hook"
    using t[where handleEventWithAutocomplete = ex_unhandled and event = "ex_enter\<lparr>shiftKey := True\<rparr>"
        and ctrlEnterToSend = False and IS_MAC = False] h by simp
  have c: "fst (onKeyDown ex_unhandled False True True ex_hook (ex_enter\<lparr>ctrlKey := True\<rparr>))
       = send True ex_hook"
    using t[where handleEventWithAutocomplete = ex_unhandled and event = "ex_enter\<lparr>ctrlKey := True\<rparr>"
        and ctrlEnterToSend = True and IS_MAC = False] h by simp
  have d: "fst (onKeyDown ex_unhandled True True True ex_hook (ex_enter\<lparr>metaKey := True\<rparr>))
       = send True ex_hook"
    using t[where handleEventWithAutocomplete = ex_unhandled and event = "ex_enter\<lparr>metaKey := True\<rparr>"
        and ctrlEnterToSend = True and IS_MAC = True] h by simp
  have e: "fst (onKeyDown ex_unhandled True True True ex_hook (ex_enter\<lparr>ctrlKey := True\<rparr>)) = ex_hook"
    using t[where handleEventWithAutocomplete = ex_unhandled and event = "ex_enter\<lparr>ctrlKey := True\<rparr>"
        and ctrlEnterToSend = True and IS_MAC = True] h by simp
  have f: "fst (onKeyDown ex_unhandled False True True ex_hook ex_enter) = ex_hook"
    using t[where handleEventWithAutocomplete = ex_unhandled and event = ex_enter
        and ctrlEnterToSend = True and IS_MAC = False] h by simp
  have g: "onKeyDown ex_handled False False True ex_hook ex_enter = (ex_hook, ex_enter)"
    using t[where handleEventWithAutocomplete = ex_handled and event = ex_enter
        and ctrlEnterToSend = False and IS_MAC = False] h by simp
  have i: "ref_current (send True ex_hook) = Some []" "onSend_calls (send True ex_hook) = 1"
    using t[where handleEventWithAutocomplete = ex_handled and event = ex_enter
        and ctrlEnterToSend = False and IS_MAC = False] by (simp_all add: ex_hook_def)
  show ?thesis
    using h a b c d e f g i by simp
qed

subsection \<open>Input and paste\<close>

text \<open>
  What \<open>replaceAll\<close> computes, apart from its recursion: the text up to the first match is
  kept, the match is replaced and the rest is treated in the same way; a text without a
  match is returned as it is.
\<close>

lemma replaceAll_match:
  "pat \<noteq> [] \<Longrightarrow> replaceAll pat rep (pat @ s) = rep @ replaceAll pat rep s"
  by (cases pat) simp_all

lemma replaceAll_first_match:
  "pat \<noteq> [] \<Longrightarrow> \<forall>i < length u. \<not> prefix pat (drop i (u @ pat @ s)) \<Longrightarrow>
   replaceAll pat rep (u @ pat @ s) = u @ rep @ replaceAll pat rep s"
proof (induction u)
  case Nil
  then show ?case by (simp add: replaceAll_match)
next
  case (Cons a u)
  from Cons.prems(2) have "\<not> prefix pat (drop 0 ((a # u) @ pat @ s))"
    by blast
  then have no: "\<not> prefix pat (a # u @ pat @ s)"
    by simp
  have "\<forall>i < length u. \<not> prefix pat (drop i (u @ pat @ s))"
  proof (intro allI impI)
    fix i assume "i < length u"
    then have "Suc i < length (a # u)" by simp
    with Cons.prems(2) have "\<not> prefix pat (drop (Suc i) ((a # u) @ pat @ s))"
      by blast
    then show "\<not> prefix pat (drop i (u @ pat @ s))" by simp
  qed
  with Cons.IH Cons.prems(1) have "replaceAll pat rep (u @ pat @ s) = u @ rep @ replaceAll pat rep s"
    by blast
  with no show ?case by simp
qed

lemma replaceAll_no_match:
  "\<forall>i < length s. \<not> prefix pat (drop i s) \<Longrightarrow> replaceAll pat rep s = s"
proof (induction s)
  case Nil
  show ?case by simp
next
  case (Cons a s)
  from Cons.prems have "\<not> prefix pat (drop 0 (a # s))"
    by blast
  then have no: "\<not> prefix pat (a # s)" by simp
  have "\<forall>i < length s. \<not> prefix pat (drop i s)"
  proof (intro allI impI)
    fix i assume "i < length s"
    then have "Suc i < length (a # s)" by simp
    with Cons.prems have "\<not> prefix pat (drop (Suc i) (a # s))" by blast
    then show "\<not> prefix pat (drop i s)" by simp
  qed
  with Cons.IH have "replaceAll pat rep s = s" by blast
  with no show ?case by simp
qed

lemma setText_Some:
  "setText onChange hk (Some t) =
     hk\<lparr> content := Some t, onChange_calls := onChange_calls hk @ (if onChange then [t] else []) \<rparr>"
  by (simp add: setText_def)

lemma replaceAll_keeps_prefix:
  "c \<notin> set q \<Longrightarrow> prefix q (replaceAll pat [c] s) \<Longrightarrow> prefix q s"
proof (induction s arbitrary: q)
  case Nil
  then show ?case by simp
next
  case (Cons x xs)
  show ?case
  proof (cases q)
    case Nil
    then show ?thesis by simp
  next
    case (Cons a q')
    show ?thesis
    proof (cases "pat \<noteq> [] \<and> prefix pat (x # xs)")
      case True
      with Cons.prems(2) Cons have "a = c" by simp
      with Cons.prems(1) Cons show ?thesis by simp
    next
      case False
      with Cons.prems(2) Cons have "a = x" and "prefix q' (replaceAll pat [c] xs)"
        by auto
      moreover from Cons.prems(1) Cons have "c \<notin> set q'" by simp
      ultimately show ?thesis
        using Cons.IH[of q'] Cons by simp
    qed
  qed
qed

lemma replaceAll_leaves_none:
  assumes "pat \<noteq> []" and "c \<notin> set pat"
  shows "\<not> prefix pat (drop i (replaceAll pat [c] s))"
proof (induction s arbitrary: i rule: length_induct)
  case (1 s)
  obtain p ps where pat: "pat = p # ps"
    using assms(1) by (cases pat) auto
  show ?case
  proof (cases s)
    case Nil
    with assms(1) show ?thesis by simp
  next
    case (Cons x xs)
    show ?thesis
    proof (cases "prefix pat (x # xs)")
      case True
      let ?rest = "drop (length pat) (x # xs)"
      have eq: "replaceAll pat [c] s = c # replaceAll pat [c] ?rest"
        using True assms(1) Cons by simp
      show ?thesis
      proof (cases i)
        case 0
        from assms(2) pat have "p \<noteq> c" by auto
        with 0 eq pat show ?thesis by simp
      next
        case (Suc j)
        have "length ?rest < length s"
          using assms(1) Cons by simp
        with 1 have "\<not> prefix pat (drop j (replaceAll pat [c] ?rest))"
          by blast
        with Suc eq show ?thesis by simp
      qed
    next
      case False
      have eq: "replaceAll pat [c] s = x # replaceAll pat [c] xs"
        using False Cons by simp
      show ?thesis
      proof (cases i)
        case 0
        have "\<not> prefix pat (x # replaceAll pat [c] xs)"
        proof
          assume "prefix pat (x # replaceAll pat [c] xs)"
          with pat have "p = x" and "prefix ps (replaceAll pat [c] xs)" by auto
          moreover from assms(2) pat have "c \<notin> set ps" by simp
          ultimately have "prefix ps xs"
            using replaceAll_keeps_prefix by blast
          with \<open>p = x\<close> pat have "prefix pat (x # xs)" by simp
          with False show False by simp
        qed
        with 0 eq show ?thesis by simp
      next
        case (Suc j)
        have "length xs < length s" using Cons by simp
        with 1 have "\<not> prefix pat (drop j (replaceAll pat [c] xs))"
          by blast
        with Suc eq show ?thesis by simp
      qed
    qed
  qed
qed

text \<open>
  Claim C8. An input event whose target is a \<open>div\<close> commits, through \<open>setText\<close>, the raw
  \<open>innerHTML\<close> when "enter sends" is enabled, and otherwise the decoded \<open>innerHTML\<close> in which
  first every \<open><div><br></div>\<close> is replaced by a newline, then every remaining \<open><div>\<close> is
  replaced by a newline, then every \<open></div>\<close> is removed; that value is the new \<open>content\<close>.
  The paste handler is the input handler. Replacing every match means: the text before the
  first match is kept, the match is replaced, and the text after it is treated in the same
  way; a text without a match is unchanged; and after a replacement by a newline no match
  of the pattern is left.
\<close>

theorem onInput_commits:
  "content (onInput decodeHtml ctrlEnterToSend onChange hk (HTMLDivElement innerHTML)) =
       Some (if enterShouldSend ctrlEnterToSend then innerHTML
             else replaceAll ''</div>'' []
                    (replaceAll ''<div>'' newline
                      (replaceAll ''<div><br></div>'' newline (decodeHtml innerHTML))))
   \<and> onInput decodeHtml ctrlEnterToSend onChange hk (HTMLDivElement innerHTML) =
       setText onChange hk (content
         (onInput decodeHtml ctrlEnterToSend onChange hk (HTMLDivElement innerHTML)))
   \<and> onPaste = onInput
   \<and> (pat \<noteq> [] \<and> (\<forall>i < length u. \<not> prefix pat (drop i (u @ pat @ s))) \<longrightarrow>
        replaceAll pat rep (u @ pat @ s) = u @ rep @ replaceAll pat rep s)
   \<and> ((\<forall>i < length s. \<not> prefix pat (drop i s)) \<longrightarrow> replaceAll pat rep s = s)
   \<and> (pat \<noteq> [] \<and> CHR 0x0A \<notin> set pat \<longrightarrow>
        (\<forall>i. \<not> prefix pat (drop i (replaceAll pat newline s))))"
proof (intro conjI impI allI)
  show c: "content (onInput decodeHtml ctrlEnterToSend onChange hk (HTMLDivElement innerHTML)) =
       Some (if enterShouldSend ctrlEnterToSend then innerHTML
             else replaceAll ''</div>'' []
                    (replaceAll ''<div>'' newline
                      (replaceAll ''<div><br></div>'' newline (decodeHtml innerHTML))))"
    by (simp add: onInput_def Let_def amendInnerHtml_def setText_Some)
  show "onInput decodeHtml ctrlEnterToSend onChange hk (HTMLDivElement innerHTML) =
       setText onChange hk (content
         (onInput decodeHtml ctrlEnterToSend onChange hk (HTMLDivElement innerHTML)))"
    unfolding c by (simp add: onInput_def Let_def amendInnerHtml_def)
  show "onPaste = onInput"
    by (rule onPaste_def)
next
  assume "pat \<noteq> [] \<and> (\<forall>i < length u. \<not> prefix pat (drop i (u @ pat @ s)))"
  then show "replaceAll pat rep (u @ pat @ s) = u @ rep @ replaceAll pat rep s"
    by (simp add: replaceAll_first_match)
next
  assume "\<forall>i < length s. \<not> prefix pat (drop i s)"
  then show "replaceAll pat rep s = s"
    by (rule replaceAll_no_match)
next
  fix i
  assume "pat \<noteq> [] \<and> CHR 0x0A \<notin> set pat"
  then show "\<not> prefix pat (drop i (replaceAll pat newline s))"
    unfolding newline_def by (simp add: replaceAll_leaves_none)
qed

text \<open>Two paragraphs typed into the example hook, with each setting.\<close>

theorem onInput_commits_witness:
  "enterShouldSend False \<and> \<not> enterShouldSend True
   \<and> content (onInput ex_decodeHtml False True ex_hook
        (HTMLDivElement ''one<div><br></div><div>two</div>''))
       = Some ''one<div><br></div><div>two</div>''
   \<and> content (onInput ex_decodeHtml True True ex_hook
        (HTMLDivElement ''one<div><br></div><div>two</div>''))
       = Some (''one'' @ newline @ newline @ ''two'')
   \<and> onChange_calls (onPaste ex_decodeHtml True True ex_hook
        (HTMLDivElement ''one<div><br></div><div>two</div>''))
       = [''hello'', ''one'' @ newline @ newline @ ''two'']
   \<and> ''<div>'' \<noteq> [] \<and> \<not> prefix ''<div>'' ''a<div>b''
   \<and> \<not> prefix ''<div>'' ''b''
   \<and> replaceAll ''<div>'' newline ''a<div>b'' = ''a'' @ newline @ ''b''
   \<and> CHR 0x0A \<notin> set ''<div>''
   \<and> \<not> prefix ''<div>'' (drop 1 (replaceAll ''<div>'' newline ''a<div>b''))"
proof -
  let ?html = "''one<div><br></div><div>two</div>''"
  have h: "enterShouldSend False" "\<not> enterShouldSend True"
    by (simp_all add: enterShouldSend_def)
  note t = onInput_commits[where decodeHtml = ex_decodeHtml and hk = ex_hook
      and onChange = True and innerHTML = ?html]
  have norm: "replaceAll ''</div>'' []
       (replaceAll ''<div>'' newline (replaceAll ''<div><br></div>'' newline ?html))
     = ''one'' @ newline @ newline @ ''two''"
    by (simp add: newline_def)
  have a: "content (onInput ex_decodeHtml False True ex_hook (HTMLDivElement ?html)) = Some ?html"
    using t[where ctrlEnterToSend = False, THEN conjunct1] h by simp
  have b: "content (onInput ex_decodeHtml True True ex_hook (HTMLDivElement ?html))
      = Some (''one'' @ newline @ newline @ ''two'')"
    using t[where ctrlEnterToSend = True, THEN conjunct1] h norm
    by (simp add: ex_decodeHtml_def)
  have "onInput ex_decodeHtml True True ex_hook (HTMLDivElement ?html) =
      setText True ex_hook (Some (''one'' @ newline @ newline @ ''two''))"
    using t[where ctrlEnterToSend = True, THEN conjunct2, THEN conjunct1] b by simp
  moreover have "onPaste = onInput"
    using t[THEN conjunct2, THEN conjunct2, THEN conjunct1] .
  ultimately have c: "onChange_calls (onPaste ex_decodeHtml True True ex_hook (HTMLDivElement ?html))
      = [''hello'', ''one'' @ newline @ newline @ ''two'']"
    by (simp add: setText_Some ex_hook_def)
  have h2: "''<div>'' \<noteq> []" "\<not> prefix ''<div>'' ''a<div>b''" "\<not> prefix ''<div>'' ''b''"
    "CHR 0x0A \<notin> set ''<div>''"
    by simp_all
  have "replaceAll ''<div>'' newline (''a'' @ ''<div>'' @ ''b'')
      = ''a'' @ newline @ replaceAll ''<div>'' newline ''b''"
    using onInput_commits[where pat = "''<div>''" and rep = newline and u = "''a''"
        and s = "''b''", THEN conjunct2, THEN conjunct2, THEN conjunct2, THEN conjunct1]
    by simp
  moreover have "replaceAll ''<div>'' newline ''b'' = ''b''"
    using onInput_commits[where pat = "''<div>''" and rep = newline and s = "''b''",
        THEN conjunct2, THEN conjunct2, THEN conjunct2, THEN conjunct2, THEN conjunct1]
    by simp
  ultimately have d: "replaceAll ''<div>'' newline ''a<div>b'' = ''a'' @ newline @ ''b''"
    by simp
  have e: "\<not> prefix ''<div>'' (drop 1 (replaceAll ''<div>'' newline ''a<div>b''))"
    using onInput_commits[where pat = "''<div>''" and s = "''a<div>b''",
        THEN conjunct2, THEN conjunct2, THEN conjunct2, THEN conjunct2, THEN conjunct2] h2
    by blast
  show ?thesis
    using h a b c h2 d e by (intro conjI)
qed

lemma amendInnerHtml_example:
  "amendInnerHtml ex_decodeHtml ''one<div><br></div><div>two</div>'' = ''one'' @ newline @ newline @ ''two''"
  by (simp add: amendInnerHtml_def ex_decodeHtml_def newline_def)

lemma onInput_example:
  "content (onInput ex_decodeHtml True False ex_hook (HTMLDivElement ''a<div>b</div>''))
     = Some (''a'' @ newline @ ''b'')"
  "content (onInput ex_decodeHtml False False ex_hook (HTMLDivElement ''a<div>b</div>''))
     = Some ''a<div>b</div>''"
  by (simp_all add: onInput_def amendInnerHtml_def enterShouldSend_def setText_def
      ex_decodeHtml_def newline_def)

subsection \<open>What a send leaves alone\<close>

text \<open>
  Claim C10. \<open>send\<close> changes neither the \<open>content\<close> state nor the calls made to \<open>onChange\<close>:
  it only empties the \<open>innerHTML\<close> of the editor node and calls \<open>onSend\<close>. The same holds for
  any key-down event, so after a send \<open>content\<close> still holds the text from before.
\<close>

theorem send_keeps_content:
  "content (send onSend hk) = content hk
   \<and> onChange_calls (send onSend hk) = onChange_calls hk
   \<and> ref_current (send onSend hk) = map_option (\<lambda>html. []) (ref_current hk)
   \<and> onSend_calls (send onSend hk) = (if onSend then Suc (onSend_calls hk) else onSend_calls hk)
   \<and> content (fst (onKeyDown handleEventWithAutocomplete IS_MAC ctrlEnterToSend onSend hk event))
       = content hk
   \<and> onChange_calls (fst (onKeyDown handleEventWithAutocomplete IS_MAC ctrlEnterToSend onSend hk event))
       = onChange_calls hk"
  by (simp add: send_fields onKeyDown_def Let_def)

lemma send_example:
  "send True ex_hook = \<lparr> ref_current = Some [], content = Some ''hello'',
      onChange_calls = [''hello''], onSend_calls = 1 \<rparr>"
  by (simp add: send_def ex_hook_def)

end
